theory Spec2Isabelle
  imports Main "HOL-Library.AList"
begin

section \<open>Strings and the regular expressions of the validators\<close>

text \<open>
  The URL registry is the class \<open>URLService\<close> of \<open>src/services/urlService.js\<close>.
  JavaScript strings are modelled as \<open>string\<close> (a list of \<open>char\<close>); a code unit above
  U+00FF has no counterpart here, so the theorems speak about Latin-1 strings.

  The two validators test their argument against a regular expression literal. The
  literals are embedded as values of \<open>regex\<close>, and \<open>RegExp.prototype.test\<close> as a
  backtracking matcher in continuation style: \<open>rmatch r i s k\<close> tries to match \<open>r\<close> at
  index \<open>i\<close>, where \<open>s\<close> is the rest of the input from \<open>i\<close> on, and hands the index and
  the rest after the match to \<open>k\<close>. Quantifiers are greedy and apply to single-character
  atoms, which is all the two literals use.
\<close>

definition in_range :: "char \<Rightarrow> char \<Rightarrow> char \<Rightarrow> bool" where
  "in_range lo hi c = ((of_char lo :: nat) \<le> of_char c \<and> (of_char c :: nat) \<le> of_char hi)"

datatype atom =
    Lit char                      \<comment> \<open>a literal character\<close>
  | Ranges "(char \<times> char) list"   \<comment> \<open>a character class \<open>[a-zA-Z0-9]\<close>\<close>
  | Dot                           \<comment> \<open>\<open>.\<close>: any character but a line terminator\<close>

fun atom_match :: "atom \<Rightarrow> char \<Rightarrow> bool" where
  "atom_match (Lit a) c = (c = a)"
| "atom_match (Ranges rs) c = list_ex (\<lambda>(lo, hi). in_range lo hi c) rs"
| "atom_match Dot c = (c \<noteq> CHR 0x0A \<and> c \<noteq> CHR 0x0D)"

datatype regex =
    Bol                   \<comment> \<open>\<open>^\<close>\<close>
  | Eol                   \<comment> \<open>\<open>$\<close> (no \<open>m\<close> flag: the end of the input)\<close>
  | One atom
  | Opt atom              \<comment> \<open>\<open>a?\<close>\<close>
  | Plus atom             \<comment> \<open>\<open>a+\<close>\<close>
  | Rep nat nat atom      \<comment> \<open>\<open>a{lo,hi}\<close>\<close>
  | Seq regex regex

fun rmatch :: "regex \<Rightarrow> nat \<Rightarrow> string \<Rightarrow> (nat \<Rightarrow> string \<Rightarrow> bool) \<Rightarrow> bool" where
  "rmatch Bol i s k = (i = 0 \<and> k i s)"
| "rmatch Eol i s k = (s = [] \<and> k i s)"
| "rmatch (One a) i [] k = False"
| "rmatch (One a) i (c # cs) k = (atom_match a c \<and> k (Suc i) cs)"
| "rmatch (Opt a) i [] k = k i []"
| "rmatch (Opt a) i (c # cs) k = ((atom_match a c \<and> k (Suc i) cs) \<or> k i (c # cs))"
| "rmatch (Plus a) i [] k = False"
| "rmatch (Plus a) i (c # cs) k =
     (atom_match a c \<and> (rmatch (Plus a) (Suc i) cs k \<or> k (Suc i) cs))"
| "rmatch (Rep lo hi a) i [] k = (lo = 0 \<and> k i [])"
| "rmatch (Rep lo hi a) i (c # cs) k =
     ((0 < hi \<and> atom_match a c \<and> rmatch (Rep (lo - 1) (hi - 1) a) (Suc i) cs k)
      \<or> (lo = 0 \<and> k i (c # cs)))"
| "rmatch (Seq r1 r2) i s k = rmatch r1 i s (\<lambda>j t. rmatch r2 j t k)"

text \<open>
  \<open>regex.test(s)\<close> without the \<open>g\<close> or \<open>y\<close> flag: is there a start index, tried from 0
  upwards, at which the expression matches?
\<close>

definition test :: "regex \<Rightarrow> string \<Rightarrow> bool" where
  "test r s = list_ex (\<lambda>i. rmatch r i (drop i s) (\<lambda>j t. True)) [0 ..< Suc (length s)]"

fun seqs :: "regex list \<Rightarrow> regex" where
  "seqs [] = Rep 0 0 Dot"
| "seqs [r] = r"
| "seqs (r # rs) = Seq r (seqs rs)"

text \<open>\<open>const shortcodePattern = /^[a-zA-Z0-9]{3,20}$/;\<close>\<close>

definition shortcodePattern :: regex where
  "shortcodePattern =
     seqs [Bol,
           Rep 3 20 (Ranges [(CHR ''a'', CHR ''z''), (CHR ''A'', CHR ''Z''), (CHR ''0'', CHR ''9'')]),
           Eol]"

text \<open>\<open>const urlPattern = /^https?:\/\/.+/;\<close>\<close>

definition urlPattern :: regex where
  "urlPattern =
     seqs [Bol, One (Lit CHR ''h''), One (Lit CHR ''t''), One (Lit CHR ''t''), One (Lit CHR ''p''),
           Opt (Lit CHR ''s''), One (Lit CHR '':''), One (Lit CHR ''/''), One (Lit CHR ''/''),
           Plus Dot]"

text \<open>
  \<open>validateShortcode\<close>: the result of the test; the two log calls have no effect on it.
\<close>

definition validateShortcode :: "string \<Rightarrow> bool" where
  "validateShortcode shortcode = test shortcodePattern shortcode"

text \<open>
  The property the specification gives for \<open>validateShortcode\<close>, in its own words: the
  string has 3 to 20 characters, each of them a letter \<open>A-Z\<close>, \<open>a-z\<close> or a digit \<open>0-9\<close>.
\<close>

definition alphanumeric :: "char \<Rightarrow> bool" where
  "alphanumeric c =
     (in_range CHR ''A'' CHR ''Z'' c \<or> in_range CHR ''a'' CHR ''z'' c \<or> in_range CHR ''0'' CHR ''9'' c)"

definition spec_shortcode :: "string \<Rightarrow> bool" where
  "spec_shortcode s = (3 \<le> length s \<and> length s \<le> 20 \<and> (\<forall>c \<in> set s. alphanumeric c))"

text \<open>
  The property the specification gives for \<open>validateUrl\<close> speaks of the beginning of
  the string; the expression in the code also asks for one more character after the two
  slashes, which \<open>.\<close> does not match when it is a line terminator.
\<close>

definition startsWith :: "string \<Rightarrow> string \<Rightarrow> bool" where
  "startsWith s p = (take (length p) s = p)"

definition line_terminator :: "char \<Rightarrow> bool" where
  "line_terminator c = (c = CHR 0x0A \<or> c = CHR 0x0D)"

text \<open>
  A string that begins with \<open>http://\<close> and goes on with a line feed. The URL parser of
  the platform removes tabs and newlines from its input before it parses, so
  \<open>new URL\<close> returns on it (with the URL \<open>http://example.com/\<close>).
\<close>

definition newline_url :: string where
  "newline_url = ''http://'' @ [CHR 0x0A] @ ''example.com''"

section \<open>The environment of a call\<close>

text \<open>
  The service reads the clock, \<open>Math.random\<close>, the platform's URL parser, the page's
  origin and referrer, and \<open>localStorage\<close>. A call of a method runs to completion in one
  turn of the event loop; what it reads from outside is collected in \<open>env\<close>:
  \<^item> \<open>now\<close>: the clock in milliseconds since the epoch (\<open>Date.now()\<close>, \<open>new Date()\<close>),
    taken to be the same at every read of one call;
  \<^item> \<open>random k\<close>: the \<open>k\<close>-th value of \<open>Math.floor(Math.random() * chars.length)\<close>
    computed during the call;
  \<^item> \<open>urlParses u\<close>: \<open>new URL(u)\<close> returns (it throws when it is false);
  \<^item> \<open>storageFails\<close>: access to \<open>localStorage\<close> throws (no storage, quota exceeded).
  Numbers are mathematical integers: millisecond time stamps, validity periods and click
  counts are far inside the range in which a double is exact, and the one place where the
  range of a number decides the outcome (the range of \<open>Date\<close>) is written out.
\<close>

record env =
  now :: int
  random :: "nat \<Rightarrow> nat"
  urlParses :: "string \<Rightarrow> bool"
  origin :: string
  referrer :: string
  storageFails :: bool

subsection \<open>Dates\<close>

text \<open>
  A date field of a record holds a \<open>Date\<close> object while the record lives in the session
  that created it. \<open>JSON.stringify\<close> writes a \<open>Date\<close> as its ISO string (and an invalid
  \<open>Date\<close> as \<open>null\<close>), and \<open>JSON.parse\<close> gives the string back as a string: after a load
  the field holds \<open>IsoString t\<close>, the ISO text of the instant \<open>t\<close>.
\<close>

datatype jsdate =
    is_Date: DateObj (time_value: int)
                     \<comment> \<open>a valid \<open>Date\<close> with this time value\<close>
  | InvalidDate      \<comment> \<open>a \<open>Date\<close> whose time value is \<open>NaN\<close>\<close>
  | IsoString int    \<comment> \<open>the string \<open>toISOString\<close> gives for this time value\<close>
  | JsonNull

text \<open>\<open>new Date(t)\<close> for a number \<open>t\<close>: a time value beyond 8.64e15 ms is clipped to \<open>NaN\<close>.\<close>

definition newDate :: "int \<Rightarrow> jsdate" where
  "newDate t = (if \<bar>t\<bar> \<le> 8640000000000000 then DateObj t else InvalidDate)"

text \<open>
  \<open>now > d\<close> for \<open>now = new Date()\<close>: both sides are converted to numbers. A \<open>Date\<close>
  gives its time value, an ISO string gives \<open>NaN\<close> (it is no numeric literal), \<open>null\<close>
  gives 0; a comparison with \<open>NaN\<close> is false.
\<close>

fun date_gt :: "int \<Rightarrow> jsdate \<Rightarrow> bool" where
  "date_gt n (DateObj t) = (n > t)"
| "date_gt n InvalidDate = False"
| "date_gt n (IsoString t) = False"
| "date_gt n JsonNull = (n > 0)"

fun json_date :: "jsdate \<Rightarrow> jsdate" where
  "json_date (DateObj t) = IsoString t"
| "json_date InvalidDate = JsonNull"
| "json_date (IsoString t) = IsoString t"
| "json_date JsonNull = JsonNull"

subsection \<open>Numbers as text\<close>

definition digit36 :: "int \<Rightarrow> char" where
  "digit36 d = ''0123456789abcdefghijklmnopqrstuvwxyz'' ! nat (d mod 36)"

function digits :: "int \<Rightarrow> int \<Rightarrow> string" where
  "digits b n =
     (if b < 2 \<or> n < b then [digit36 n] else digits b (n div b) @ [digit36 (n mod b)])"
  by pat_completeness auto
termination
  by (relation "measure (\<lambda>(b, n). nat n)") (auto intro: int_div_less_self)

declare digits.simps [simp del]

text \<open>\<open>n.toString(radix)\<close> for an integer \<open>n\<close>.\<close>

definition toString :: "int \<Rightarrow> int \<Rightarrow> string" where
  "toString radix n = (if n < 0 then ''-'' @ digits radix (- n) else digits radix n)"

section \<open>The data model\<close>

record click =
  timestamp :: jsdate
  source :: string
  location :: string

text \<open>The object \<open>urlData\<close>; its field \<open>id\<close> is \<open>ident\<close> here.\<close>

record url_data =
  ident :: string
  originalUrl :: string
  shortcode :: string
  shortUrl :: string
  createdAt :: jsdate
  expiresAt :: jsdate
  validityMinutes :: int
  clickCount :: int
  clicks :: "click list"

text \<open>
  A \<open>Map\<close> is an association list in insertion order: \<open>map_of\<close> is \<open>get\<close>,
  \<open>AList.update\<close> is \<open>set\<close> (an existing key keeps its place, a new one goes last),
  \<open>AList.delete\<close> is \<open>delete\<close>. A \<open>Set\<close> of strings is a list in insertion order.
\<close>

definition set_add :: "'a \<Rightarrow> 'a list \<Rightarrow> 'a list" where
  "set_add x xs = (if x \<in> set xs then xs else xs @ [x])"

definition new_Map :: "('k \<times> 'v) list \<Rightarrow> ('k \<times> 'v) list" where
  "new_Map entries = foldl (\<lambda>m (k, v). AList.update k v m) [] entries"

definition new_Set :: "'a list \<Rightarrow> 'a list" where
  "new_Set xs = foldl (\<lambda>s x. set_add x s) [] xs"

text \<open>
  The value under the key \<open>urlShortenerData\<close> of \<open>localStorage\<close>, as \<open>JSON.parse\<close>
  returns it. A field may be missing (\<open>parsedData.urls || []\<close>).
\<close>

record stored =
  stored_urls :: "(string \<times> url_data) list option"
  stored_clickData :: "(string \<times> click list) list option"
  stored_usedShortcodes :: "string list option"

text \<open>The fields of \<open>URLService\<close>, and the storage it writes to.\<close>

record service =
  urls :: "(string \<times> url_data) list"
  clickData :: "(string \<times> click list) list"
  shortcodeCounter :: int
  usedShortcodes :: "string list"
  localStorage :: "stored option"

datatype jserror = TypeError | RangeError

text \<open>
  What a method gives its caller: \<open>{success: false, error}\<close>, \<open>{success: true, data}\<close>,
  or an exception that leaves the method.
\<close>

datatype result = is_Failure: Failure string | is_Success: Success url_data | is_Thrown: Thrown jserror

datatype jsnumber = Integer int | NotInteger

section \<open>Persistence\<close>

definition json_click :: "click \<Rightarrow> click" where
  "json_click c = c\<lparr>timestamp := json_date (timestamp c)\<rparr>"

definition json_url_data :: "url_data \<Rightarrow> url_data" where
  "json_url_data r =
     r\<lparr>createdAt := json_date (createdAt r), expiresAt := json_date (expiresAt r),
       clicks := map json_click (clicks r)\<rparr>"

text \<open>
  \<open>saveToStorage\<close>: the three collections as arrays, through \<open>JSON.stringify\<close>. An
  exception is caught and logged, and the storage keeps what it had.
\<close>

definition saveToStorage :: "env \<Rightarrow> service \<Rightarrow> service" where
  "saveToStorage env st =
     (if storageFails env then st
      else st\<lparr>localStorage := Some
        \<lparr>stored_urls = Some (map (\<lambda>(k, r). (k, json_url_data r)) (urls st)),
         stored_clickData = Some (map (\<lambda>(k, h). (k, map json_click h)) (clickData st)),
         stored_usedShortcodes = Some (usedShortcodes st)\<rparr>\<rparr>)"

definition or_empty :: "'a list option \<Rightarrow> 'a list" where
  "or_empty v = (case v of None \<Rightarrow> [] | Some xs \<Rightarrow> xs)"

definition loadFromStorage :: "env \<Rightarrow> service \<Rightarrow> service" where
  "loadFromStorage env st =
     (if storageFails env then st
      else case localStorage st of
        None \<Rightarrow> st
      | Some parsedData \<Rightarrow>
          st\<lparr>urls := new_Map (or_empty (stored_urls parsedData)),
             clickData := new_Map (or_empty (stored_clickData parsedData)),
             usedShortcodes := new_Set (or_empty (stored_usedShortcodes parsedData))\<rparr>)"

text \<open>The constructor, run at every page load on the storage the browser kept.\<close>

definition construct :: "env \<Rightarrow> stored option \<Rightarrow> service" where
  "construct env storage =
     loadFromStorage env
       \<lparr>urls = [], clickData = [], shortcodeCounter = 1, usedShortcodes = [],
        localStorage = storage\<rparr>"

section \<open>Validation and shortcode generation\<close>

definition validateURL :: "env \<Rightarrow> string \<Rightarrow> bool" where
  "validateURL env url = (if \<not> test urlPattern url then False else urlParses env url)"

definition isShortcodeAvailable :: "service \<Rightarrow> string \<Rightarrow> bool" where
  "isShortcodeAvailable st code = (code \<notin> set (usedShortcodes st))"

definition chars :: string where
  "chars = ''ABCDEFGHIJKLMNOPQRSTUVWXYZabcdefghijklmnopqrstuvwxyz0123456789''"

definition charAt :: "string \<Rightarrow> nat \<Rightarrow> string" where
  "charAt s i = (if i < length s then [s ! i] else [])"

text \<open>The inner \<open>for\<close> loop of attempt number \<open>a\<close> (from 0): six draws, six characters.\<close>

definition random_code :: "(nat \<Rightarrow> nat) \<Rightarrow> nat \<Rightarrow> string" where
  "random_code rnd a = concat (map (\<lambda>i. charAt chars (rnd (6 * a + i))) [0 ..< 6])"

definition maxAttempts :: nat where
  "maxAttempts = 100"

text \<open>
  The \<open>do ... while\<close> loop: \<open>attempts\<close> is the counter before the body runs; the result
  is the last code drawn and the counter after the loop.
\<close>

function gen_loop :: "(nat \<Rightarrow> nat) \<Rightarrow> string list \<Rightarrow> nat \<Rightarrow> string \<times> nat" where
  "gen_loop rnd used attempts =
     (if random_code rnd attempts \<in> set used \<and> Suc attempts < maxAttempts
      then gen_loop rnd used (Suc attempts)
      else (random_code rnd attempts, Suc attempts))"
  by pat_completeness auto
termination
  by (relation "measure (\<lambda>(rnd, used, attempts). maxAttempts - attempts)") auto

declare gen_loop.simps [simp del]

definition generateShortcode :: "env \<Rightarrow> service \<Rightarrow> string \<times> service" where
  "generateShortcode env st =
     (let (drawn, attempts) = gen_loop (random env) (usedShortcodes st) 0;
          code = (if attempts \<ge> maxAttempts then ''url'' @ toString 36 (now env) else drawn)
      in (code, st\<lparr>usedShortcodes := set_add code (usedShortcodes st)\<rparr>))"

section \<open>The operations of the registry\<close>

definition err_url :: string where
  "err_url = ''Invalid URL format. Please provide a valid HTTP/HTTPS URL.''"

definition err_validity :: string where
  "err_validity = ''Validity period must be a positive integer (minutes).''"

definition err_shortcode :: string where
  "err_shortcode = ''Invalid shortcode format. Use 3-20 alphanumeric characters.''"

definition err_taken :: string where
  "err_taken = ''Shortcode already in use. Please choose a different one.''"

definition err_not_found :: string where
  "err_not_found = ''Short URL not found.''"

definition err_expired :: string where
  "err_expired = ''Short URL has expired.''"

text \<open>
  \<open>createShortURL\<close>, in three parts. Lines 134 to 153 choose the shortcode: a custom
  shortcode is used when it is truthy (neither \<open>null\<close> nor the empty string), otherwise
  one is generated.
\<close>

definition chooseShortcode :: "env \<Rightarrow> string option \<Rightarrow> service \<Rightarrow> string + string \<times> service" where
  "chooseShortcode env customShortcode st =
     (case customShortcode of
        None \<Rightarrow> Inr (generateShortcode env st)
      | Some custom \<Rightarrow>
          if custom = [] then Inr (generateShortcode env st)
          else if \<not> validateShortcode custom then Inl err_shortcode
          else if \<not> isShortcodeAvailable st custom then Inl err_taken
          else Inr (custom, st))"

text \<open>Lines 155 to 170 build the record.\<close>

definition new_urlData :: "env \<Rightarrow> string \<Rightarrow> int \<Rightarrow> string \<Rightarrow> url_data" where
  "new_urlData env url minutes code =
     \<lparr>ident = toString 10 (now env),
      originalUrl = url,
      shortcode = code,
      shortUrl = origin env @ ''/'' @ code,
      createdAt = DateObj (now env),
      expiresAt = newDate (now env + minutes * 60 * 1000),
      validityMinutes = minutes,
      clickCount = 0,
      clicks = []\<rparr>"

text \<open>
  Lines 172 to 187 store and save it. The last log call evaluates
  \<open>expiresAt.toISOString()\<close>, which throws a \<open>RangeError\<close> on an invalid date, after the
  record has been stored and saved.
\<close>

definition storeURL :: "env \<Rightarrow> url_data \<Rightarrow> service \<Rightarrow> result \<times> service" where
  "storeURL env urlData st =
     (let st2 = st\<lparr>urls := AList.update (shortcode urlData) urlData (urls st),
                    clickData := AList.update (shortcode urlData) [] (clickData st)\<rparr>;
          st3 = saveToStorage env st2
      in if expiresAt urlData = InvalidDate then (Thrown RangeError, st3)
         else (Success urlData, st3))"

definition createShortURL ::
  "env \<Rightarrow> string \<Rightarrow> jsnumber \<Rightarrow> string option \<Rightarrow> service \<Rightarrow> result \<times> service" where
  "createShortURL env url validity customShortcode st =
     (if \<not> validateURL env url then (Failure err_url, st)
      else case validity of
        NotInteger \<Rightarrow> (Failure err_validity, st)
      | Integer minutes \<Rightarrow>
          if minutes \<le> 0 then (Failure err_validity, st)
          else case chooseShortcode env customShortcode st of
            Inl e \<Rightarrow> (Failure e, st)
          | Inr (code, st1) \<Rightarrow> storeURL env (new_urlData env url minutes code) st1)"

definition getClickSource :: "env \<Rightarrow> string" where
  "getClickSource env = (if referrer env = [] then ''Direct'' else referrer env)"

definition getClickLocation :: string where
  "getClickLocation = ''Unknown''"

text \<open>
  \<open>recordClick\<close> changes the record in place, then the click history;
  \<open>this.clickData.get(shortcode).push\<close> throws a \<open>TypeError\<close> when the history has no
  entry for the shortcode, and then the record has been changed and nothing is saved.
  The result says whether the method returned (\<open>None\<close>) or threw.
\<close>

definition recordClick :: "env \<Rightarrow> string \<Rightarrow> service \<Rightarrow> jserror option \<times> service" where
  "recordClick env code st =
     (case map_of (urls st) code of
        None \<Rightarrow> (None, st)
      | Some urlData \<Rightarrow>
          let click = \<lparr>timestamp = DateObj (now env), source = getClickSource env,
                       location = getClickLocation\<rparr>;
              urlData' = urlData\<lparr>clickCount := clickCount urlData + 1,
                                 clicks := clicks urlData @ [click]\<rparr>;
              st1 = st\<lparr>urls := AList.update code urlData' (urls st)\<rparr>
          in case map_of (clickData st1) code of
               None \<Rightarrow> (Some TypeError, st1)
             | Some history \<Rightarrow>
                 (None, saveToStorage env
                    (st1\<lparr>clickData := AList.update code (history @ [click]) (clickData st1)\<rparr>)))"

text \<open>
  \<open>getOriginalURL\<close> returns the object held by the map, which \<open>recordClick\<close> has
  changed by then: the data of a success is the record as it is after the click.
\<close>

definition getOriginalURL :: "env \<Rightarrow> string \<Rightarrow> service \<Rightarrow> result \<times> service" where
  "getOriginalURL env code st =
     (case map_of (urls st) code of
        None \<Rightarrow> (Failure err_not_found, st)
      | Some urlData \<Rightarrow>
          if date_gt (now env) (expiresAt urlData) then (Failure err_expired, st)
          else
            case recordClick env code st of
              (Some e, st') \<Rightarrow> (Thrown e, st')
            | (None, st') \<Rightarrow>
                (case map_of (urls st') code of
                   None \<Rightarrow> (Success urlData, st')
                 | Some urlData' \<Rightarrow> (Success urlData', st')))"

definition getAllURLs :: "service \<Rightarrow> url_data list" where
  "getAllURLs st = map snd (urls st)"

definition getURLStats :: "service \<Rightarrow> string \<Rightarrow> url_data option" where
  "getURLStats st code =
     (case map_of (urls st) code of
        None \<Rightarrow> None
      | Some urlData \<Rightarrow>
          Some (urlData\<lparr>clicks := (case map_of (clickData st) code of
                                     None \<Rightarrow> [] | Some history \<Rightarrow> history)\<rparr>))"

text \<open>
  \<open>cleanupExpiredURLs\<close>: the \<open>for ... of\<close> loop visits the entries the map has when the
  loop starts (an entry is deleted only while it is the current one), and deletes an
  expired shortcode from the map, from the click histories and from \<open>usedShortcodes\<close>.
\<close>

fun cleanup_loop ::
  "int \<Rightarrow> (string \<times> url_data) list \<Rightarrow> service \<times> nat \<Rightarrow> service \<times> nat" where
  "cleanup_loop n [] (st, cleanedCount) = (st, cleanedCount)"
| "cleanup_loop n ((code, urlData) # entries) (st, cleanedCount) =
     (if date_gt n (expiresAt urlData)
      then cleanup_loop n entries
             (st\<lparr>urls := AList.delete code (urls st),
                 clickData := AList.delete code (clickData st),
                 usedShortcodes := removeAll code (usedShortcodes st)\<rparr>,
              Suc cleanedCount)
      else cleanup_loop n entries (st, cleanedCount))"

definition cleanupExpiredURLs :: "env \<Rightarrow> service \<Rightarrow> service" where
  "cleanupExpiredURLs env st =
     (let (st', cleanedCount) = cleanup_loop (now env) (urls st) (st, 0)
      in if cleanedCount > 0 then saveToStorage env st' else st')"

subsection \<open>Sequences of operations\<close>

datatype operation =
    Create string jsnumber "string option"
  | Resolve string
  | Click string
  | Cleanup
  | Save
  | Load
  | Restart

fun step :: "env \<Rightarrow> operation \<Rightarrow> service \<Rightarrow> service" where
  "step env (Create url validity custom) st = snd (createShortURL env url validity custom st)"
| "step env (Resolve code) st = snd (getOriginalURL env code st)"
| "step env (Click code) st = snd (recordClick env code st)"
| "step env Cleanup st = cleanupExpiredURLs env st"
| "step env Save st = saveToStorage env st"
| "step env Load st = loadFromStorage env st"
| "step env Restart st = construct env (localStorage st)"

fun run :: "(env \<times> operation) list \<Rightarrow> service \<Rightarrow> service" where
  "run [] st = st"
| "run ((env, x) # rest) st = run rest (step env x st)"

text \<open>The registry of a browser that has never stored anything.\<close>

definition initial :: service where
  "initial = \<lparr>urls = [], clickData = [], shortcodeCounter = 1, usedShortcodes = [],
              localStorage = None\<rparr>"

section \<open>Properties of a registry state\<close>

text \<open>
  What holds of the registry in every state it can reach: the keys of the map are
  distinct, the click count of a record is the length of its \<open>clicks\<close>, the click
  histories are the \<open>clicks\<close> of the records, key by key and in the same order, and the
  stored value, if there is one, has the same shape.
\<close>

definition history_of :: "(string \<times> url_data) list \<Rightarrow> (string \<times> click list) list" where
  "history_of us = map (\<lambda>(k, r). (k, clicks r)) us"

definition records_ok :: "(string \<times> url_data) list \<Rightarrow> bool" where
  "records_ok us =
     (distinct (map fst us) \<and> (\<forall>(k, r) \<in> set us. clickCount r = int (length (clicks r))))"

definition stored_ok :: "stored \<Rightarrow> bool" where
  "stored_ok d =
     (\<exists>us. stored_urls d = Some us \<and> stored_clickData d = Some (history_of us) \<and> records_ok us)"

definition inv :: "service \<Rightarrow> bool" where
  "inv st =
     (records_ok (urls st) \<and> clickData st = history_of (urls st)
      \<and> (case localStorage st of None \<Rightarrow> True | Some d \<Rightarrow> stored_ok d))"

text \<open>An environment for worked examples: the clock reads \<open>t\<close>, every draw is \<open>d\<close>.\<close>

definition example_env :: "int \<Rightarrow> nat \<Rightarrow> env" where
  "example_env t d =
     \<lparr>now = t, random = (\<lambda>k. d), urlParses = (\<lambda>u. True),
      origin = ''http://localhost:3000'', referrer = [], storageFails = False\<rparr>"

text \<open>
  A worked sequence: a record is created with a generated shortcode, resolved, the page
  is loaded again, and the shortcode is resolved once more.
\<close>

definition example_ops :: "(env \<times> operation) list" where
  "example_ops =
     [(example_env 1000 0, Create ''https://example.com'' (Integer 30) None),
      (example_env 2000 0, Resolve ''AAAAAA''),
      (example_env 3000 0, Restart),
      (example_env 4000 0, Resolve ''AAAAAA'')]"

text \<open>The shortcodes of the entries that the loop of \<open>cleanupExpiredURLs\<close> deletes.\<close>

definition expired_codes :: "int \<Rightarrow> (string \<times> url_data) list \<Rightarrow> string set" where
  "expired_codes n es = set (map fst (filter (\<lambda>(k, r). date_gt n (expiresAt r)) es))"

text \<open>
  A registry with two records of generated shortcodes: \<open>AAAAAA\<close>, created at 1000 ms
  for one minute, and \<open>BBBBBB\<close>, created at 2000 ms for thirty minutes.
\<close>

definition two_records :: service where
  "two_records =
     run [(example_env 1000 0, Create ''https://example.com'' (Integer 1) None),
          (example_env 2000 1, Create ''https://example.org'' (Integer 30) None)] initial"

text \<open>
  Worked states: the registry after one record has been created with the custom
  shortcode \<open>abc\<close>; the registry after one record has been created at 1000 ms for one
  minute with a generated shortcode (\<open>AAAAAA\<close>, as every draw is 0); that registry after
  the page has been loaded again.
\<close>

definition custom_once :: service where
  "custom_once =
     snd (createShortURL (example_env 1000 0) ''https://example.com'' (Integer 30) (Some ''abc'')
            initial)"

definition one_record :: service where
  "one_record =
     snd (createShortURL (example_env 1000 0) ''https://example.com'' (Integer 1) None initial)"

definition restarted :: service where
  "restarted = construct (example_env 2000 0) (localStorage one_record)"

text \<open>
  Draws for which the first 99 attempts give \<open>AAAAAA\<close> and attempt 100 gives \<open>BBBBBB\<close>.
\<close>

definition last_attempt_env :: env where
  "last_attempt_env = (example_env 1000 0)\<lparr>random := (\<lambda>k. if k < 594 then 0 else 1)\<rparr>"

section \<open>What the matcher computes\<close>

lemma rmatch_Rep:
  "rmatch (Rep lo hi a) i s k \<longleftrightarrow>
     (\<exists>n. lo \<le> n \<and> n \<le> hi \<and> n \<le> length s \<and> (\<forall>c \<in> set (take n s). atom_match a c)
          \<and> k (i + n) (drop n s))"
proof (induction s arbitrary: lo hi i)
  case Nil
  show ?case by auto
next
  case (Cons c cs)
  show ?case (is "?L \<longleftrightarrow> ?R")
  proof
    assume ?L
    then consider
        (step) "0 < hi" "atom_match a c" "rmatch (Rep (lo - 1) (hi - 1) a) (Suc i) cs k"
      | (stop) "lo = 0" "k i (c # cs)"
      by auto
    then show ?R
    proof cases
      case step
      from step(3) obtain n where n: "lo - 1 \<le> n" "n \<le> hi - 1" "n \<le> length cs"
          "\<forall>c \<in> set (take n cs). atom_match a c" "k (Suc i + n) (drop n cs)"
        unfolding Cons.IH by blast
      show ?thesis
        by (rule exI [of _ "Suc n"]) (use step(1,2) n in auto)
    next
      case stop
      show ?thesis
        by (rule exI [of _ 0]) (use stop in auto)
    qed
  next
    assume ?R
    then obtain n where n: "lo \<le> n" "n \<le> hi" "n \<le> length (c # cs)"
        "\<forall>x \<in> set (take n (c # cs)). atom_match a x" "k (i + n) (drop n (c # cs))"
      by blast
    show ?L
    proof (cases n)
      case 0
      with n show ?thesis by auto
    next
      case (Suc m)
      with n have "lo - 1 \<le> m \<and> m \<le> hi - 1 \<and> m \<le> length cs
          \<and> (\<forall>x \<in> set (take m cs). atom_match a x) \<and> k (Suc i + m) (drop m cs)"
        by auto
      then have "rmatch (Rep (lo - 1) (hi - 1) a) (Suc i) cs k"
        unfolding Cons.IH by blast
      moreover have "0 < hi" "atom_match a c"
        using n Suc by auto
      ultimately show ?thesis by simp
    qed
  qed
qed

lemma test_Bol:
  "test (Seq Bol r) s = rmatch r 0 s (\<lambda>j t. True)"
proof -
  have "[0 ..< Suc (length s)] = 0 # [Suc 0 ..< Suc (length s)]"
    by (simp add: upt_rec)
  then show ?thesis
    by (simp add: test_def list_ex_iff)
qed

lemma atom_match_alphanumeric:
  "atom_match (Ranges [(CHR ''a'', CHR ''z''), (CHR ''A'', CHR ''Z''), (CHR ''0'', CHR ''9'')]) c
     = alphanumeric c"
  by (auto simp: alphanumeric_def)

lemma validateShortcode_iff:
  "validateShortcode s \<longleftrightarrow> 3 \<le> length s \<and> length s \<le> 20 \<and> (\<forall>c \<in> set s. alphanumeric c)"
proof -
  have "validateShortcode s \<longleftrightarrow>
      (\<exists>n. 3 \<le> n \<and> n \<le> 20 \<and> n \<le> length s \<and> (\<forall>c \<in> set (take n s). alphanumeric c)
           \<and> drop n s = [])"
    by (simp add: validateShortcode_def shortcodePattern_def test_Bol rmatch_Rep
        atom_match_alphanumeric del: atom_match.simps)
  also have "\<dots> \<longleftrightarrow> 3 \<le> length s \<and> length s \<le> 20 \<and> (\<forall>c \<in> set s. alphanumeric c)"
  proof
    assume "\<exists>n. 3 \<le> n \<and> n \<le> 20 \<and> n \<le> length s \<and> (\<forall>c \<in> set (take n s). alphanumeric c)
           \<and> drop n s = []"
    then obtain n where n: "3 \<le> n" "n \<le> 20" "n \<le> length s"
        "\<forall>c \<in> set (take n s). alphanumeric c" "drop n s = []"
      by blast
    from n(3,5) have "n = length s" by simp
    with n show "3 \<le> length s \<and> length s \<le> 20 \<and> (\<forall>c \<in> set s. alphanumeric c)"
      by simp
  next
    assume "3 \<le> length s \<and> length s \<le> 20 \<and> (\<forall>c \<in> set s. alphanumeric c)"
    then show "\<exists>n. 3 \<le> n \<and> n \<le> 20 \<and> n \<le> length s
        \<and> (\<forall>c \<in> set (take n s). alphanumeric c) \<and> drop n s = []"
      by (intro exI [of _ "length s"]) simp
  qed
  finally show ?thesis .
qed

lemma rmatch_Seq: "rmatch (Seq r1 r2) i s k = rmatch r1 i s (\<lambda>j t. rmatch r2 j t k)"
  by simp

lemma rmatch_One_Lit:
  "rmatch (One (Lit a)) i s k \<longleftrightarrow> (\<exists>cs. s = a # cs \<and> k (Suc i) cs)"
  by (cases s) auto

lemma rmatch_Opt_Lit:
  "rmatch (Opt (Lit a)) i s k \<longleftrightarrow> (\<exists>cs. s = a # cs \<and> k (Suc i) cs) \<or> k i s"
  by (cases s) auto

lemma rmatch_Plus_anywhere:
  "rmatch (Plus a) i s (\<lambda>j t. True) \<longleftrightarrow> (\<exists>c cs. s = c # cs \<and> atom_match a c)"
  by (cases s) auto

lemma test_urlPattern:
  "test urlPattern s \<longleftrightarrow>
     (\<exists>c cs. (s = ''http://'' @ c # cs \<or> s = ''https://'' @ c # cs) \<and> \<not> line_terminator c)"
proof -
  have "test urlPattern s \<longleftrightarrow>
      (\<exists>c cs. (s = ''http://'' @ c # cs \<or> s = ''https://'' @ c # cs) \<and> atom_match Dot c)"
    unfolding urlPattern_def seqs.simps test_Bol rmatch_Seq
    unfolding rmatch_One_Lit rmatch_Opt_Lit rmatch_Plus_anywhere
    by auto
  then show ?thesis
    by (simp add: line_terminator_def)
qed

section \<open>Maps, sets and the stored value\<close>

lemma map_update_val:
  "map (\<lambda>(k, r). (k, f r)) (AList.update c v al) = AList.update c (f v) (map (\<lambda>(k, r). (k, f r)) al)"
  by (induction al) auto

lemma map_delete_val:
  "map (\<lambda>(k, r). (k, f r)) (AList.delete c al) = AList.delete c (map (\<lambda>(k, r). (k, f r)) al)"
  by (induction al) auto

lemma fst_map_val: "map fst (map (\<lambda>(k, r). (k, f r)) al) = map fst al"
  by (induction al) auto

lemma update_fresh: "c \<notin> fst ` set al \<Longrightarrow> AList.update c v al = al @ [(c, v)]"
  by (induction al) auto

lemma foldl_update_distinct:
  "distinct (map fst (acc @ al)) \<Longrightarrow> foldl (\<lambda>m (k, v). AList.update k v m) acc al = acc @ al"
proof (induction al arbitrary: acc)
  case Nil
  show ?case by simp
next
  case (Cons e al)
  obtain c v where e: "e = (c, v)" by (cases e)
  from Cons.prems have fresh: "c \<notin> fst ` set acc"
    by (auto simp: e)
  from Cons.prems have "distinct (map fst ((acc @ [(c, v)]) @ al))"
    by (simp add: e)
  then have "foldl (\<lambda>m (k, v). AList.update k v m) (acc @ [(c, v)]) al = (acc @ [(c, v)]) @ al"
    by (rule Cons.IH)
  then show ?case
    by (simp add: e update_fresh [OF fresh])
qed

lemma new_Map_distinct: "distinct (map fst al) \<Longrightarrow> new_Map al = al"
  using foldl_update_distinct [of "[]" al] by (simp add: new_Map_def)

lemma foldl_set_add_distinct:
  "distinct (acc @ xs) \<Longrightarrow> foldl (\<lambda>s x. set_add x s) acc xs = acc @ xs"
proof (induction xs arbitrary: acc)
  case Nil
  show ?case by simp
next
  case (Cons x xs)
  from Cons.prems have "distinct ((acc @ [x]) @ xs)" by simp
  then have "foldl (\<lambda>s x. set_add x s) (acc @ [x]) xs = (acc @ [x]) @ xs"
    by (rule Cons.IH)
  moreover from Cons.prems have "set_add x acc = acc @ [x]"
    by (simp add: set_add_def)
  ultimately show ?case by simp
qed

lemma new_Set_distinct: "distinct xs \<Longrightarrow> new_Set xs = xs"
  using foldl_set_add_distinct [of "[]" xs] by (simp add: new_Set_def)

lemma history_of_update:
  "history_of (AList.update c r us) = AList.update c (clicks r) (history_of us)"
  by (simp add: history_of_def map_update_val)

lemma history_of_delete:
  "history_of (AList.delete c us) = AList.delete c (history_of us)"
  by (simp add: history_of_def map_delete_val)

lemma map_of_history_of:
  "map_of (history_of us) c = map_option clicks (map_of us c)"
  by (induction us) (auto simp: history_of_def)

lemma fst_history_of: "map fst (history_of us) = map fst us"
  by (induction us) (auto simp: history_of_def)

lemma fst_json_urls: "map fst (map (\<lambda>(k, r). (k, json_url_data r)) us) = map fst us"
  by (induction us) auto

lemma set_update_cases:
  "(a, b) \<in> set (AList.update c r us) \<Longrightarrow> (a, b) = (c, r) \<or> (a, b) \<in> set us"
  by (induction us) (auto split: if_splits)

lemma records_ok_update:
  assumes "records_ok us" and "clickCount r = int (length (clicks r))"
  shows "records_ok (AList.update c r us)"
proof -
  have "distinct (map fst (AList.update c r us))"
    using assms(1) by (simp add: records_ok_def distinct_update)
  moreover have "clickCount b = int (length (clicks b))"
    if "(a, b) \<in> set (AList.update c r us)" for a b
    using set_update_cases [OF that] assms by (auto simp: records_ok_def)
  ultimately show ?thesis
    by (auto simp: records_ok_def)
qed

lemma records_ok_delete:
  assumes "records_ok us"
  shows "records_ok (AList.delete c us)"
proof -
  have "distinct (map fst (AList.delete c us))"
    using assms by (simp add: records_ok_def distinct_delete)
  moreover have "set (AList.delete c us) \<subseteq> set us"
    by (auto simp: AList.delete_eq)
  ultimately show ?thesis
    using assms unfolding records_ok_def by blast
qed

lemma records_ok_lookup:
  "records_ok us \<Longrightarrow> map_of us c = Some r \<Longrightarrow> clickCount r = int (length (clicks r))"
  unfolding records_ok_def by (auto dest: map_of_SomeD)

lemma json_records_ok:
  assumes "records_ok us"
  shows "records_ok (map (\<lambda>(k, r). (k, json_url_data r)) us)"
proof -
  have "distinct (map fst (map (\<lambda>(k, r). (k, json_url_data r)) us))"
    using assms by (simp only: fst_json_urls records_ok_def)
  moreover have "\<forall>(k, r) \<in> set (map (\<lambda>(k, r). (k, json_url_data r)) us).
      clickCount r = int (length (clicks r))"
    using assms by (auto simp: records_ok_def json_url_data_def)
  ultimately show ?thesis
    unfolding records_ok_def by blast
qed

lemma json_history_of:
  "map (\<lambda>(k, h). (k, map json_click h)) (history_of us)
     = history_of (map (\<lambda>(k, r). (k, json_url_data r)) us)"
  by (induction us) (auto simp: history_of_def json_url_data_def)

lemma inv_saveToStorage: "inv st \<Longrightarrow> inv (saveToStorage env st)"
  by (simp add: inv_def saveToStorage_def stored_ok_def json_records_ok json_history_of)

lemma inv_loadFromStorage:
  assumes "inv st"
  shows "inv (loadFromStorage env st)"
proof (cases "storageFails env \<or> localStorage st = None")
  case True
  with assms show ?thesis
    by (auto simp: loadFromStorage_def)
next
  case False
  then obtain d where d: "localStorage st = Some d" and ok: "\<not> storageFails env"
    by auto
  from assms d obtain us where us: "stored_urls d = Some us"
      "stored_clickData d = Some (history_of us)" "records_ok us"
    by (auto simp: inv_def stored_ok_def)
  have "new_Map us = us"
    using us(3) by (simp add: records_ok_def new_Map_distinct)
  moreover have "new_Map (history_of us) = history_of us"
    using us(3) by (simp add: records_ok_def new_Map_distinct fst_history_of)
  ultimately show ?thesis
    using us d ok by (simp add: inv_def loadFromStorage_def or_empty_def stored_ok_def)
qed

lemma inv_construct: "inv st \<Longrightarrow> inv (construct env (localStorage st))"
  unfolding construct_def
  by (rule inv_loadFromStorage) (simp add: inv_def records_ok_def history_of_def)

lemma urls_generateShortcode [simp]:
  "urls (snd (generateShortcode env st)) = urls st"
  "clickData (snd (generateShortcode env st)) = clickData st"
  "localStorage (snd (generateShortcode env st)) = localStorage st"
  by (simp_all add: generateShortcode_def Let_def split: prod.splits)

lemma inv_generateShortcode: "inv st \<Longrightarrow> inv (snd (generateShortcode env st))"
  by (simp add: inv_def)

lemma inv_chooseShortcode:
  "inv st \<Longrightarrow> chooseShortcode env custom st = Inr (code, st1) \<Longrightarrow> inv st1"
  using inv_generateShortcode [of st env]
  by (auto simp: chooseShortcode_def split: option.splits if_splits)

lemma inv_storeURL:
  assumes "inv st" and "clickCount r = 0" and "clicks r = []"
  shows "inv (snd (storeURL env r st))"
proof -
  have "inv (st\<lparr>urls := AList.update (shortcode r) r (urls st),
      clickData := AList.update (shortcode r) [] (clickData st)\<rparr>)"
    using assms by (simp add: inv_def records_ok_update history_of_update)
  then show ?thesis
    by (simp add: storeURL_def Let_def inv_saveToStorage)
qed

lemma inv_createShortURL:
  assumes "inv st"
  shows "inv (snd (createShortURL env url validity custom st))"
  using assms
  by (auto simp: createShortURL_def new_urlData_def
      intro!: inv_storeURL dest: inv_chooseShortcode
      split: jsnumber.splits sum.splits)

lemma inv_recordClick:
  assumes "inv st"
  shows "inv (snd (recordClick env code st))"
proof (cases "map_of (urls st) code")
  case None
  with assms show ?thesis by (simp add: recordClick_def)
next
  case (Some r)
  define click where "click = \<lparr>timestamp = DateObj (now env), source = getClickSource env,
      location = getClickLocation\<rparr>"
  define r' where "r' = r\<lparr>clickCount := clickCount r + 1, clicks := clicks r @ [click]\<rparr>"
  have hist: "map_of (clickData st) code = Some (clicks r)"
    using assms Some by (simp add: inv_def map_of_history_of)
  have count: "clickCount r = int (length (clicks r))"
    using assms Some by (auto simp: inv_def intro: records_ok_lookup)
  have eq: "snd (recordClick env code st) = saveToStorage env
      (st\<lparr>urls := AList.update code r' (urls st),
          clickData := AList.update code (clicks r @ [click]) (clickData st)\<rparr>)"
    using Some hist by (simp add: recordClick_def Let_def click_def r'_def)
  have "inv (st\<lparr>urls := AList.update code r' (urls st),
          clickData := AList.update code (clicks r @ [click]) (clickData st)\<rparr>)"
    using assms count by (simp add: inv_def records_ok_update history_of_update r'_def)
  then show ?thesis
    unfolding eq by (rule inv_saveToStorage)
qed

lemma getOriginalURL_state:
  "snd (getOriginalURL env code st) = st
   \<or> snd (getOriginalURL env code st) = snd (recordClick env code st)"
  by (auto simp: getOriginalURL_def split: option.splits prod.splits)

lemma inv_getOriginalURL: "inv st \<Longrightarrow> inv (snd (getOriginalURL env code st))"
  using getOriginalURL_state [of env code st] by (auto simp: inv_recordClick)

lemma inv_cleanup_loop:
  "inv st \<Longrightarrow> inv (fst (cleanup_loop n entries (st, count)))"
proof (induction entries arbitrary: st count)
  case Nil
  then show ?case by simp
next
  case (Cons e entries)
  obtain code r where e: "e = (code, r)" by (cases e)
  have "inv (st\<lparr>urls := AList.delete code (urls st),
      clickData := AList.delete code (clickData st),
      usedShortcodes := removeAll code (usedShortcodes st)\<rparr>)"
    using Cons.prems by (simp add: inv_def records_ok_delete history_of_delete)
  then show ?case
    using Cons by (simp add: e)
qed

lemma inv_cleanupExpiredURLs: "inv st \<Longrightarrow> inv (cleanupExpiredURLs env st)"
  using inv_cleanup_loop [of st "now env" "urls st" 0]
  by (auto simp: cleanupExpiredURLs_def inv_saveToStorage split: prod.splits)

lemma inv_step: "inv st \<Longrightarrow> inv (step env x st)"
  by (cases x)
    (simp_all add: inv_createShortURL inv_getOriginalURL inv_recordClick
      inv_cleanupExpiredURLs inv_saveToStorage inv_loadFromStorage inv_construct)

lemma inv_run: "inv st \<Longrightarrow> inv (run ops st)"
  by (induction ops arbitrary: st) (auto simp: inv_step)

lemma inv_initial: "inv initial"
  by (simp add: inv_def initial_def records_ok_def history_of_def)

section \<open>Claims about the validators\<close>

text \<open>
  C9. For every string \<open>s\<close>, \<open>validateShortcode s\<close> is true if and only if \<open>s\<close> matches
  \<open>^[A-Za-z0-9]{3,20}$\<close>, that is, \<open>s\<close> has between 3 and 20 characters and all of them
  are alphanumeric; so it is false for every string whose length lies outside [3,20] and
  for every string that has a character which is not alphanumeric.
\<close>

theorem C9_validateShortcode:
  "(validateShortcode s \<longleftrightarrow> spec_shortcode s)
   \<and> (length s < 3 \<or> 20 < length s \<longrightarrow> \<not> validateShortcode s)
   \<and> ((\<exists>c \<in> set s. \<not> alphanumeric c) \<longrightarrow> \<not> validateShortcode s)"
  by (auto simp: validateShortcode_iff spec_shortcode_def)

theorem C9_validateShortcode_witness:
  "validateShortcode ''abc'' \<and> spec_shortcode ''abc''
   \<and> \<not> validateShortcode ''ab'' \<and> length ''ab'' < 3
   \<and> \<not> validateShortcode ''ab-c'' \<and> \<not> alphanumeric CHR ''-''"
  using C9_validateShortcode [of "''abc''"] C9_validateShortcode [of "''ab''"]
    C9_validateShortcode [of "''ab-c''"]
  by (simp add: spec_shortcode_def alphanumeric_def in_range_def)

text \<open>
  C8, as the code has it. For every string \<open>s\<close>, \<open>validateURL\<close> returns true if and
  only if \<open>s\<close> begins with \<open>http://\<close> or \<open>https://\<close>, goes on with at least one
  character that is not a line terminator, and \<open>new URL(s)\<close> returns; so it returns false
  for every string that begins with neither. No network access is made: the result
  depends on the string and on the parser only.
\<close>

theorem C8_validateURL:
  "(validateURL env s \<longleftrightarrow>
      (\<exists>c cs. (s = ''http://'' @ c # cs \<or> s = ''https://'' @ c # cs) \<and> \<not> line_terminator c)
      \<and> urlParses env s)
   \<and> (\<not> startsWith s ''http://'' \<and> \<not> startsWith s ''https://'' \<longrightarrow> \<not> validateURL env s)"
  by (auto simp: validateURL_def test_urlPattern startsWith_def)

text \<open>The theorem at an accepted and at a rejected string.\<close>

theorem C8_validateURL_witness:
  "validateURL (example_env 0 0) ''https://example.com''
   \<and> urlParses (example_env 0 0) ''https://example.com''
   \<and> \<not> startsWith ''ftp://example.com'' ''http://''
   \<and> \<not> startsWith ''ftp://example.com'' ''https://''
   \<and> \<not> validateURL (example_env 0 0) ''ftp://example.com''"
proof -
  have "\<exists>c cs. (''https://example.com'' = ''http://'' @ c # cs
        \<or> ''https://example.com'' = ''https://'' @ c # cs) \<and> \<not> line_terminator c"
    by (intro exI [of _ "CHR ''e''"] exI [of _ "''xample.com''"])
      (simp add: line_terminator_def)
  moreover have "urlParses (example_env 0 0) ''https://example.com''"
    by (simp add: example_env_def)
  moreover have "\<not> startsWith ''ftp://example.com'' ''http://''"
      "\<not> startsWith ''ftp://example.com'' ''https://''"
    by (simp_all add: startsWith_def)
  ultimately show ?thesis
    using C8_validateURL [of "example_env 0 0" "''https://example.com''"]
      C8_validateURL [of "example_env 0 0" "''ftp://example.com''"]
    by blast
qed

text \<open>
  C8 as stated fails: the string \<open>newline_url\<close> begins with \<open>http://\<close> and the parser
  accepts it, and \<open>validateURL\<close> returns false, because the character after the slashes
  is a line feed.
\<close>

theorem C8_newline_counterexample:
  "startsWith newline_url ''http://'' \<and> urlParses (example_env 0 0) newline_url
   \<and> \<not> validateURL (example_env 0 0) newline_url"
  by (simp add: startsWith_def newline_url_def example_env_def validateURL_def test_urlPattern
      line_terminator_def)

section \<open>Cleaning up\<close>

lemma expired_codes_Cons:
  "expired_codes n ((k, r) # es)
     = (if date_gt n (expiresAt r) then insert k (expired_codes n es) else expired_codes n es)"
  by (simp add: expired_codes_def)

lemma cleanup_loop_fst:
  "fst (cleanup_loop n es (st, c)) =
     st\<lparr>urls := filter (\<lambda>(k, r). k \<notin> expired_codes n es) (urls st),
        clickData := filter (\<lambda>(k, h). k \<notin> expired_codes n es) (clickData st),
        usedShortcodes := filter (\<lambda>k. k \<notin> expired_codes n es) (usedShortcodes st)\<rparr>"
proof (induction es arbitrary: st c)
  case Nil
  show ?case by (simp add: expired_codes_def)
next
  case (Cons e es)
  obtain code r where e: "e = (code, r)" by (cases e)
  show ?case
  proof (cases "date_gt n (expiresAt r)")
    case True
    have 1: "filter (\<lambda>(k, v). k \<notin> expired_codes n es) (AList.delete code al)
        = filter (\<lambda>(k, v). k \<noteq> code \<and> k \<notin> expired_codes n es) al" for al :: "(string \<times> 'v) list"
      by (induction al) (auto simp: AList.delete_eq)
    have 2: "filter (\<lambda>k. k \<notin> expired_codes n es) (removeAll code xs)
        = filter (\<lambda>k. k \<noteq> code \<and> k \<notin> expired_codes n es) xs" for xs
      by (induction xs) auto
    show ?thesis
      using True by (simp add: e Cons.IH expired_codes_Cons 1 2)
  next
    case False
    then show ?thesis
      by (simp add: e Cons.IH expired_codes_Cons)
  qed
qed

lemma cleanup_loop_snd:
  "snd (cleanup_loop n es (st, c)) = c + length (filter (\<lambda>(k, r). date_gt n (expiresAt r)) es)"
  by (induction es arbitrary: st c) auto

lemma filter_expired_codes:
  assumes "distinct (map fst us)"
  shows "filter (\<lambda>(k, r). k \<notin> expired_codes n us) us
     = filter (\<lambda>(k, r). \<not> date_gt n (expiresAt r)) us"
proof (rule filter_cong [OF refl])
  fix e assume e: "e \<in> set us"
  obtain k r where kr: "e = (k, r)" by (cases e)
  have "k \<in> expired_codes n us \<longleftrightarrow> date_gt n (expiresAt r)"
  proof
    assume "k \<in> expired_codes n us"
    then obtain r' where "(k, r') \<in> set us" "date_gt n (expiresAt r')"
      by (auto simp: expired_codes_def)
    moreover have "r' = r"
      using assms e kr \<open>(k, r') \<in> set us\<close> by (meson eq_key_imp_eq_value)
    ultimately show "date_gt n (expiresAt r)" by simp
  next
    assume "date_gt n (expiresAt r)"
    then show "k \<in> expired_codes n us"
      using e kr by (force simp: expired_codes_def)
  qed
  then show "(case e of (k, r) \<Rightarrow> k \<notin> expired_codes n us)
      = (case e of (k, r) \<Rightarrow> \<not> date_gt n (expiresAt r))"
    by (simp add: kr)
qed

lemma cleanupExpiredURLs_fields:
  "urls (cleanupExpiredURLs env st)
     = filter (\<lambda>(k, r). k \<notin> expired_codes (now env) (urls st)) (urls st)"
  "clickData (cleanupExpiredURLs env st)
     = filter (\<lambda>(k, h). k \<notin> expired_codes (now env) (urls st)) (clickData st)"
  "usedShortcodes (cleanupExpiredURLs env st)
     = filter (\<lambda>k. k \<notin> expired_codes (now env) (urls st)) (usedShortcodes st)"
  using cleanup_loop_fst [of "now env" "urls st" st 0]
  by (auto simp: cleanupExpiredURLs_def saveToStorage_def split: prod.splits)

lemma createShortURL_not_taken:
  assumes "code \<notin> set (usedShortcodes st)"
  shows "fst (createShortURL env url validity (Some code) st) \<noteq> Failure err_taken"
proof -
  have "fst (storeURL env r st1) \<noteq> Failure e" for r st1 e
    by (simp add: storeURL_def Let_def)
  moreover have "chooseShortcode env (Some code) st \<noteq> Inl err_taken"
    using assms
    by (simp add: chooseShortcode_def isShortcodeAvailable_def err_taken_def err_shortcode_def)
  moreover have "err_url \<noteq> err_taken" "err_validity \<noteq> err_taken"
    by (simp_all add: err_url_def err_taken_def err_validity_def)
  ultimately show ?thesis
    by (auto simp: createShortURL_def split: jsnumber.splits sum.splits)
qed

lemma two_records_cleanup:
  "map (\<lambda>(k, r). (k, shortcode r, expiresAt r)) (urls two_records)
     = [(''AAAAAA'', ''AAAAAA'', DateObj 61000), (''BBBBBB'', ''BBBBBB'', DateObj 1802000)]"
  "usedShortcodes two_records = [''AAAAAA'', ''BBBBBB'']"
  "map shortcode (getAllURLs (cleanupExpiredURLs (example_env 100000 0) two_records))
     = [''BBBBBB'']"
  "usedShortcodes (cleanupExpiredURLs (example_env 100000 0) two_records) = [''BBBBBB'']"
  "fst (createShortURL (example_env 100001 0) ''https://example.net'' (Integer 30)
     (Some ''AAAAAA'') (cleanupExpiredURLs (example_env 100000 0) two_records))
     = Success (new_urlData (example_env 100001 0) ''https://example.net'' 30 ''AAAAAA'')"
  by code_simp+

text \<open>
  C2, as the code has it. In a registry whose records hold valid \<open>Date\<close> objects in
  \<open>expiresAt\<close> (as a record does in the session that created it, unless its validity
  period leaves the range of \<open>Date\<close>), \<open>cleanupExpiredURLs\<close> removes from the map exactly the records whose \<open>expiresAt\<close> lies
  before the current time, and it deletes the shortcode of each removed record from
  \<open>usedShortcodes\<close> as well: a later \<open>createShortURL\<close> with that shortcode as custom
  shortcode does not fail with the error of a shortcode in use.
\<close>

theorem C2_cleanupExpiredURLs:
  assumes "distinct (map fst (urls st))"
    and "\<forall>(k, r) \<in> set (urls st). is_Date (expiresAt r)"
  shows "getAllURLs (cleanupExpiredURLs env st)
           = filter (\<lambda>r. \<not> time_value (expiresAt r) < now env) (getAllURLs st)
     \<and> (\<forall>(k, r) \<in> set (urls st). time_value (expiresAt r) < now env \<longrightarrow>
           k \<notin> set (usedShortcodes (cleanupExpiredURLs env st))
           \<and> fst (createShortURL env' url validity (Some k) (cleanupExpiredURLs env st))
               \<noteq> Failure err_taken)"
proof -
  have gt: "date_gt (now env) (expiresAt r) \<longleftrightarrow> time_value (expiresAt r) < now env"
    if "(k, r) \<in> set (urls st)" for k r
    using assms(2) that by (cases "expiresAt r") auto
  have "urls (cleanupExpiredURLs env st)
      = filter (\<lambda>(k, r). \<not> date_gt (now env) (expiresAt r)) (urls st)"
    by (simp add: cleanupExpiredURLs_fields filter_expired_codes [OF assms(1)])
  also have "\<dots> = filter (\<lambda>(k, r). \<not> time_value (expiresAt r) < now env) (urls st)"
    by (rule filter_cong) (auto simp: gt)
  finally have "getAllURLs (cleanupExpiredURLs env st)
      = filter (\<lambda>r. \<not> time_value (expiresAt r) < now env) (getAllURLs st)"
    by (simp add: getAllURLs_def filter_map comp_def case_prod_unfold)
  moreover have "k \<notin> set (usedShortcodes (cleanupExpiredURLs env st))"
    if "(k, r) \<in> set (urls st)" "time_value (expiresAt r) < now env" for k r
  proof -
    have "k \<in> expired_codes (now env) (urls st)"
      using that gt [OF that(1)] by (force simp: expired_codes_def)
    then show ?thesis
      by (simp add: cleanupExpiredURLs_fields)
  qed
  ultimately show ?thesis
    using createShortURL_not_taken [of _ "cleanupExpiredURLs env st" env' url validity]
    by blast
qed

text \<open>The theorem at \<open>two_records\<close>, cleaned up at 100000 ms.\<close>

theorem C2_cleanupExpiredURLs_witness:
  "distinct (map fst (urls two_records))
   \<and> list_all (\<lambda>(k, r). is_Date (expiresAt r)) (urls two_records)
   \<and> map (\<lambda>(k, r). (k, time_value (expiresAt r))) (urls two_records)
       = [(''AAAAAA'', 61000), (''BBBBBB'', 1802000)]
   \<and> map shortcode (getAllURLs (cleanupExpiredURLs (example_env 100000 0) two_records))
       = [''BBBBBB'']
   \<and> ''AAAAAA'' \<notin> set (usedShortcodes (cleanupExpiredURLs (example_env 100000 0) two_records))
   \<and> fst (createShortURL (example_env 100001 0) ''https://example.net'' (Integer 30)
            (Some ''AAAAAA'') (cleanupExpiredURLs (example_env 100000 0) two_records))
       \<noteq> Failure err_taken"
proof -
  obtain r1 r2 where u: "urls two_records = [(''AAAAAA'', r1), (''BBBBBB'', r2)]"
      and r: "shortcode r1 = ''AAAAAA''" "expiresAt r1 = DateObj 61000"
        "shortcode r2 = ''BBBBBB''" "expiresAt r2 = DateObj 1802000"
    using two_records_cleanup(1) by (auto simp: map_eq_Cons_conv)
  have d: "distinct (map fst (urls two_records))"
    by (simp add: u)
  have a: "\<forall>(k, r) \<in> set (urls two_records). is_Date (expiresAt r)"
    by (simp add: u r)
  have n: "now (example_env 100000 0) = 100000"
    by (simp add: example_env_def)
  show ?thesis
    using C2_cleanupExpiredURLs [OF d a, of "example_env 100000 0" "example_env 100001 0"
        "''https://example.net''" "Integer 30"]
    by (simp add: u r n getAllURLs_def)
qed

text \<open>
  C2 as stated fails in its second half: after the cleanup at 100000 ms the shortcode
  \<open>AAAAAA\<close> of the removed record is no longer in \<open>usedShortcodes\<close>, and creating a
  record with \<open>AAAAAA\<close> as custom shortcode succeeds.
\<close>

theorem C2_shortcode_released_counterexample:
  "''AAAAAA'' \<in> set (usedShortcodes two_records)
   \<and> map shortcode (getAllURLs two_records) = [''AAAAAA'', ''BBBBBB'']
   \<and> map shortcode (getAllURLs (cleanupExpiredURLs (example_env 100000 0) two_records))
       = [''BBBBBB'']
   \<and> ''AAAAAA'' \<notin> set (usedShortcodes (cleanupExpiredURLs (example_env 100000 0) two_records))
   \<and> is_Success (fst (createShortURL (example_env 100001 0) ''https://example.net'' (Integer 30)
            (Some ''AAAAAA'') (cleanupExpiredURLs (example_env 100000 0) two_records)))"
proof -
  obtain r1 r2 where u: "urls two_records = [(''AAAAAA'', r1), (''BBBBBB'', r2)]"
      and r: "shortcode r1 = ''AAAAAA''" "shortcode r2 = ''BBBBBB''"
    using two_records_cleanup(1) by (auto simp: map_eq_Cons_conv)
  have "map shortcode (getAllURLs two_records) = [''AAAAAA'', ''BBBBBB'']"
    by (simp add: getAllURLs_def u r)
  then show ?thesis
    by (simp add: two_records_cleanup(2-5))
qed

section \<open>Creating a record\<close>

lemma errors_distinct:
  "distinct [err_url, err_validity, err_shortcode, err_taken, err_not_found, err_expired]"
  by (simp add: err_url_def err_validity_def err_shortcode_def err_taken_def err_not_found_def
      err_expired_def)

lemma createShortURL_failures:
  "\<not> validateURL env url \<Longrightarrow> createShortURL env url v c st = (Failure err_url, st)"
  "validateURL env url \<Longrightarrow> createShortURL env url NotInteger c st = (Failure err_validity, st)"
  "validateURL env url \<Longrightarrow> m \<le> 0 \<Longrightarrow>
     createShortURL env url (Integer m) c st = (Failure err_validity, st)"
  "validateURL env url \<Longrightarrow> 0 < m \<Longrightarrow> custom \<noteq> [] \<Longrightarrow> \<not> validateShortcode custom \<Longrightarrow>
     createShortURL env url (Integer m) (Some custom) st = (Failure err_shortcode, st)"
  "validateURL env url \<Longrightarrow> 0 < m \<Longrightarrow> validateShortcode custom \<Longrightarrow>
     custom \<in> set (usedShortcodes st) \<Longrightarrow>
     createShortURL env url (Integer m) (Some custom) st = (Failure err_taken, st)"
  by (auto simp: createShortURL_def chooseShortcode_def isShortcodeAvailable_def
      validateShortcode_iff)

lemma storeURL_Success:
  assumes "storeURL env r st1 = (Success r', st')"
  shows "r' = r" and "map_of (urls st') (shortcode r) = Some r" and "expiresAt r \<noteq> InvalidDate"
    and "usedShortcodes st' = usedShortcodes st1"
  using assms
  by (auto simp: storeURL_def Let_def saveToStorage_def update_conv' split: if_splits)

lemma createShortURL_Success:
  assumes "createShortURL env url v c st = (Success r, st')"
  shows "\<exists>m. v = Integer m \<and> 0 < m \<and> expiresAt r = DateObj (now env + m * 60 * 1000)"
    and "createdAt r = DateObj (now env)" and "clickCount r = 0" and "clicks r = []"
    and "originalUrl r = url" and "map_of (urls st') (shortcode r) = Some r"
proof -
  from assms obtain m code st1 where v: "v = Integer m" "0 < m"
      and ch: "chooseShortcode env c st = Inr (code, st1)"
      and st: "storeURL env (new_urlData env url m code) st1 = (Success r, st')"
    by (auto simp: createShortURL_def split: if_splits jsnumber.splits sum.splits)
  note s = storeURL_Success [OF st]
  from s(3) have "expiresAt (new_urlData env url m code) = DateObj (now env + m * 60 * 1000)"
    by (auto simp: new_urlData_def newDate_def split: if_splits)
  with v s(1) show "\<exists>m. v = Integer m \<and> 0 < m \<and> expiresAt r = DateObj (now env + m * 60 * 1000)"
    by simp
  show "createdAt r = DateObj (now env)" "clickCount r = 0" "clicks r = []" "originalUrl r = url"
    by (simp_all add: s(1) new_urlData_def)
  show "map_of (urls st') (shortcode r) = Some r"
    using s(2) by (simp add: s(1))
qed

lemma generateShortcode_recorded:
  "fst (generateShortcode env st) \<in> set (usedShortcodes (snd (generateShortcode env st)))"
  by (simp add: generateShortcode_def Let_def set_add_def split: prod.splits)

lemma createShortURL_generated_recorded:
  assumes "createShortURL env url v None st = (Success r, st')"
  shows "shortcode r \<in> set (usedShortcodes st')"
proof -
  from assms obtain m where
      st: "storeURL env (new_urlData env url m (fst (generateShortcode env st)))
             (snd (generateShortcode env st)) = (Success r, st')"
    by (auto simp: createShortURL_def chooseShortcode_def
        split: if_splits jsnumber.splits sum.splits prod.splits)
  note s = storeURL_Success [OF st]
  show ?thesis
    using generateShortcode_recorded [of env st] by (simp add: s(1,4) new_urlData_def)
qed

lemma createShortURL_custom_not_recorded:
  "custom \<noteq> [] \<Longrightarrow>
     usedShortcodes (snd (createShortURL env url v (Some custom) st)) = usedShortcodes st"
  by (auto simp: createShortURL_def chooseShortcode_def storeURL_def Let_def saveToStorage_def
      split: jsnumber.splits)

text \<open>
  C5. The claim: \<open>createShortURL\<close> checks its failure modes in the order invalid URL,
  invalid validity, invalid shortcode, shortcode taken, each with an error of its own
  (\<open>createShortURL_failures\<close>, \<open>errors_distinct\<close>); on success the record has
  \<open>createdAt = now\<close>, \<open>expiresAt = now + validityMinutes * 60 s\<close>, click count 0 and no
  clicks, and is in the map (\<open>createShortURL_Success\<close>); and the shortcode is put into
  the set of used shortcodes. The last part holds for a generated shortcode
  (\<open>createShortURL_generated_recorded\<close>) and fails for a custom one
  (\<open>createShortURL_custom_not_recorded\<close>): on the empty registry, creating a record
  with the custom shortcode \<open>abc\<close> succeeds, puts \<open>abc\<close> in the map, and leaves
  \<open>usedShortcodes\<close> empty.
\<close>

theorem C5_custom_shortcode_not_recorded:
  "is_Success (fst (createShortURL (example_env 1000 0) ''https://example.com'' (Integer 30)
                     (Some ''abc'') initial))
   \<and> map fst (urls custom_once) = [''abc'']
   \<and> usedShortcodes custom_once = []"
  by code_simp

text \<open>
  C1. The claim: once a record has been created with the custom shortcode \<open>c\<close>, a later
  \<open>createShortURL\<close> with the same custom shortcode fails with the error of a shortcode in
  use and leaves the record of \<open>c\<close> as it is. In the code a custom shortcode never
  enters \<open>usedShortcodes\<close>, which is all that \<open>isShortcodeAvailable\<close> looks at: the second
  call with \<open>abc\<close> succeeds and replaces the record of \<open>abc\<close>.
\<close>

theorem C1_custom_shortcode_accepted_twice:
  "fst (createShortURL (example_env 1000 0) ''https://example.com'' (Integer 30) (Some ''abc'')
          initial)
     = Success (new_urlData (example_env 1000 0) ''https://example.com'' 30 ''abc'')
   \<and> urls custom_once
     = [(''abc'', new_urlData (example_env 1000 0) ''https://example.com'' 30 ''abc'')]
   \<and> createShortURL (example_env 2000 0) ''https://example.org'' (Integer 30) (Some ''abc'')
          custom_once
     = (Success (new_urlData (example_env 2000 0) ''https://example.org'' 30 ''abc''),
        saveToStorage (example_env 2000 0)
          (custom_once\<lparr>urls :=
             [(''abc'', new_urlData (example_env 2000 0) ''https://example.org'' 30 ''abc'')]\<rparr>))"
  by code_simp

section \<open>Generating a shortcode\<close>

lemma gen_loop_attempts:
  "attempts < maxAttempts \<Longrightarrow>
     maxAttempts \<le> snd (gen_loop rnd used attempts) \<longleftrightarrow>
       (\<forall>j. attempts \<le> j \<and> Suc j < maxAttempts \<longrightarrow> random_code rnd j \<in> set used)"
proof (induction rnd used attempts rule: gen_loop.induct)
  case (1 rnd used attempts)
  show ?case
  proof (cases "random_code rnd attempts \<in> set used \<and> Suc attempts < maxAttempts")
    case True
    then have "gen_loop rnd used attempts = gen_loop rnd used (Suc attempts)"
      by (subst gen_loop.simps) simp
    moreover have "(\<forall>j. attempts \<le> j \<and> Suc j < maxAttempts \<longrightarrow> random_code rnd j \<in> set used)
        \<longleftrightarrow> (\<forall>j. Suc attempts \<le> j \<and> Suc j < maxAttempts \<longrightarrow> random_code rnd j \<in> set used)"
      using True by (metis Suc_leI le_eq_less_or_eq Suc_leD)
    ultimately show ?thesis
      using "1.IH" True by simp
  next
    case False
    then have eq: "gen_loop rnd used attempts = (random_code rnd attempts, Suc attempts)"
      by (subst gen_loop.simps) auto
    show ?thesis
    proof (cases "Suc attempts < maxAttempts")
      case True
      with False have "random_code rnd attempts \<notin> set used" by simp
      with True show ?thesis
        unfolding eq by auto
    next
      case False
      then show ?thesis
        unfolding eq by auto
    qed
  qed
qed

lemma generateShortcode_fallback:
  "fst (generateShortcode env st) =
     (if \<forall>j < 99. random_code (random env) j \<in> set (usedShortcodes st)
      then ''url'' @ toString 36 (now env)
      else fst (gen_loop (random env) (usedShortcodes st) 0))"
proof -
  have "maxAttempts \<le> snd (gen_loop (random env) (usedShortcodes st) 0)
      \<longleftrightarrow> (\<forall>j < 99. random_code (random env) j \<in> set (usedShortcodes st))"
    using gen_loop_attempts [of 0 "random env" "usedShortcodes st"]
    by (auto simp: maxAttempts_def)
  then show ?thesis
    by (cases "gen_loop (random env) (usedShortcodes st) 0")
      (auto simp: generateShortcode_def Let_def)
qed


lemma gen_loop_drawn:
  "\<exists>j. attempts \<le> j \<and> gen_loop rnd used attempts = (random_code rnd j, Suc j)
        \<and> (Suc j < maxAttempts \<longrightarrow> random_code rnd j \<notin> set used)"
proof (induction rnd used attempts rule: gen_loop.induct)
  case (1 rnd used attempts)
  show ?case
  proof (cases "random_code rnd attempts \<in> set used \<and> Suc attempts < maxAttempts")
    case True
    then have "gen_loop rnd used attempts = gen_loop rnd used (Suc attempts)"
      by (subst gen_loop.simps) simp
    with "1.IH" True show ?thesis
      by (metis Suc_leD)
  next
    case False
    then have "gen_loop rnd used attempts = (random_code rnd attempts, Suc attempts)"
      by (subst gen_loop.simps) auto
    with False show ?thesis
      by auto
  qed
qed

lemma random_code_shape:
  assumes "\<forall>k. rnd k < 62"
  shows "length (random_code rnd a) = 6" and "set (random_code rnd a) \<subseteq> set chars"
proof -
  have six: "[0 ..< 6] = [0, 1, 2, 3, 4, 5::nat]"
    by code_simp
  have len: "length chars = 62"
    by (simp add: chars_def)
  have at: "charAt chars (rnd k) = [chars ! rnd k]" for k
    using assms by (simp add: charAt_def len)
  show "length (random_code rnd a) = 6"
    by (simp add: random_code_def six at)
  have "chars ! rnd k \<in> set chars" for k
    using assms by (simp add: len)
  then show "set (random_code rnd a) \<subseteq> set chars"
    by (simp add: random_code_def six at)
qed

text \<open>
  C6. The claim: \<open>generateShortcode\<close> draws codes of six characters of the alphabet
  (\<open>random_code_shape\<close>) until one is not in use, at most 100 times, falls back to
  \<open>url\<close> and the time in base 36 exactly when all attempts collide, and adds the code it
  returns to the set (\<open>generateShortcode_recorded\<close>). The loop ends after attempt 100
  whatever that attempt drew, and the test after the loop only looks at the counter: the
  code falls back exactly when the first 99 attempts collide
  (\<open>generateShortcode_fallback\<close>). With \<open>AAAAAA\<close> in use, 99 draws of \<open>AAAAAA\<close> and
  then a draw of the unused \<open>BBBBBB\<close>, it returns the fallback code \<open>urlrs\<close>.
\<close>

theorem C6_fresh_last_attempt_discarded:
  "usedShortcodes (initial\<lparr>usedShortcodes := [''AAAAAA'']\<rparr>) = [''AAAAAA'']
   \<and> map (random_code (random last_attempt_env)) [0, 98, 99] = [''AAAAAA'', ''AAAAAA'', ''BBBBBB'']
   \<and> fst (generateShortcode last_attempt_env (initial\<lparr>usedShortcodes := [''AAAAAA'']\<rparr>))
       = ''urlrs''"
  by code_simp

section \<open>Resolving a shortcode\<close>

lemma getOriginalURL_not_found:
  "map_of (urls st) code = None \<Longrightarrow> getOriginalURL env code st = (Failure err_not_found, st)"
  by (simp add: getOriginalURL_def)

lemma getOriginalURL_expired:
  "map_of (urls st) code = Some r \<Longrightarrow> expiresAt r = DateObj e \<Longrightarrow> e < now env \<Longrightarrow>
     getOriginalURL env code st = (Failure err_expired, st)"
  by (simp add: getOriginalURL_def)

lemma getOriginalURL_success:
  assumes "map_of (urls st) code = Some r" and "expiresAt r = DateObj e" and "now env \<le> e"
    and "map_of (clickData st) code = Some h"
  shows "\<exists>click. fst (getOriginalURL env code st)
            = Success (r\<lparr>clickCount := clickCount r + 1, clicks := clicks r @ [click]\<rparr>)
          \<and> map_of (urls (snd (getOriginalURL env code st))) code
            = Some (r\<lparr>clickCount := clickCount r + 1, clicks := clicks r @ [click]\<rparr>)
          \<and> map_of (clickData (snd (getOriginalURL env code st))) code = Some (h @ [click])"
  using assms
  by (simp add: getOriginalURL_def recordClick_def Let_def saveToStorage_def update_conv')

lemma getOriginalURL_string_date:
  "map_of (urls st) code = Some r \<Longrightarrow> expiresAt r = IsoString e \<Longrightarrow>
     fst (getOriginalURL env code st) \<noteq> Failure err_expired"
  by (auto simp: getOriginalURL_def split: prod.splits option.splits)

text \<open>
  C4. The claim: \<open>getOriginalURL\<close> reports a shortcode that is not in the map as not
  found (\<open>getOriginalURL_not_found\<close>), one whose \<open>expiresAt\<close> lies before the current
  time as expired, and otherwise succeeds, adds one to the click count, appends one
  click, and returns the record as changed. For a record that holds a \<open>Date\<close> in
  \<open>expiresAt\<close> the code does so (\<open>getOriginalURL_expired\<close>, \<open>getOriginalURL_success\<close>).
  After the page has been loaded again the field holds an ISO string, the comparison
  \<open>now > urlData.expiresAt\<close> is false at every time (\<open>getOriginalURL_string_date\<close>), and
  the record never expires: \<open>AAAAAA\<close>, which expired at 61000 ms, is resolved at
  100000 ms, and the click is counted.
\<close>

theorem C4_no_expiry_after_restart:
  "map (\<lambda>(k, r). (k, expiresAt r, clickCount r)) (urls restarted)
     = [(''AAAAAA'', IsoString 61000, 0)]
   \<and> now (example_env 100000 0) = 100000
   \<and> fst (getOriginalURL (example_env 100000 0) ''AAAAAA'' restarted) \<noteq> Failure err_expired
   \<and> is_Success (fst (getOriginalURL (example_env 100000 0) ''AAAAAA'' restarted))
   \<and> map (\<lambda>(k, r). (k, expiresAt r, clickCount r))
         (urls (snd (getOriginalURL (example_env 100000 0) ''AAAAAA'' restarted)))
     = [(''AAAAAA'', IsoString 61000, 1)]"
  by code_simp

section \<open>Saving and loading\<close>

lemma json_url_data_fields:
  "ident (json_url_data r) = ident r" "originalUrl (json_url_data r) = originalUrl r"
  "shortcode (json_url_data r) = shortcode r" "shortUrl (json_url_data r) = shortUrl r"
  "validityMinutes (json_url_data r) = validityMinutes r"
  "clickCount (json_url_data r) = clickCount r"
  "length (clicks (json_url_data r)) = length (clicks r)"
  "createdAt (json_url_data r) = json_date (createdAt r)"
  "expiresAt (json_url_data r) = json_date (expiresAt r)"
  by (simp_all add: json_url_data_def)

lemma save_load:
  assumes "\<not> storageFails env" and "distinct (map fst (urls st))"
    and "distinct (map fst (clickData st))" and "distinct (usedShortcodes st)"
  shows "urls (loadFromStorage env (saveToStorage env st))
           = map (\<lambda>(k, r). (k, json_url_data r)) (urls st)"
    and "clickData (loadFromStorage env (saveToStorage env st))
           = map (\<lambda>(k, h). (k, map json_click h)) (clickData st)"
    and "usedShortcodes (loadFromStorage env (saveToStorage env st)) = usedShortcodes st"
proof -
  have "distinct (map fst (map (\<lambda>(k, r). (k, json_url_data r)) (urls st)))"
    using assms(2) by (simp only: fst_json_urls)
  then show "urls (loadFromStorage env (saveToStorage env st))
      = map (\<lambda>(k, r). (k, json_url_data r)) (urls st)"
    using assms(1)
    by (simp add: loadFromStorage_def saveToStorage_def or_empty_def new_Map_distinct)
  have "distinct (map fst (map (\<lambda>(k, h). (k, map json_click h)) (clickData st)))"
    using assms(3) by (simp only: fst_map_val)
  then show "clickData (loadFromStorage env (saveToStorage env st))
      = map (\<lambda>(k, h). (k, map json_click h)) (clickData st)"
    using assms(1)
    by (simp add: loadFromStorage_def saveToStorage_def or_empty_def new_Map_distinct)
  show "usedShortcodes (loadFromStorage env (saveToStorage env st)) = usedShortcodes st"
    using assms(1,4)
    by (simp add: loadFromStorage_def saveToStorage_def or_empty_def new_Set_distinct)
qed

text \<open>
  C3. The claim: \<open>saveToStorage\<close> followed by \<open>loadFromStorage\<close> gives back an
  equivalent state: the same records with their \<open>createdAt\<close>, \<open>expiresAt\<close> and click
  counts, the same click histories, the same set of used shortcodes. Keys, order, click
  counts and the set come back as they were (\<open>save_load\<close>, \<open>json_url_data_fields\<close>); the
  dates come back as ISO strings, not as \<open>Date\<close> objects, and the registry no longer
  behaves as before: the record that \<open>getOriginalURL\<close> reports as expired before the
  round trip is resolved after it.
\<close>

theorem C3_dates_come_back_as_strings:
  "map (\<lambda>(k, r). (k, createdAt r, expiresAt r)) (urls one_record)
     = [(''AAAAAA'', DateObj 1000, DateObj 61000)]
   \<and> map (\<lambda>(k, r). (k, createdAt r, expiresAt r))
         (urls (loadFromStorage (example_env 2000 0) (saveToStorage (example_env 2000 0) one_record)))
     = [(''AAAAAA'', IsoString 1000, IsoString 61000)]
   \<and> fst (getOriginalURL (example_env 100000 0) ''AAAAAA'' one_record) = Failure err_expired
   \<and> is_Success (fst (getOriginalURL (example_env 100000 0) ''AAAAAA''
         (loadFromStorage (example_env 2000 0) (saveToStorage (example_env 2000 0) one_record))))"
  by code_simp

section \<open>Claims about the reachable states\<close>

text \<open>
  C7. After every sequence of registry operations (create, resolve, record a click,
  clean up, save, load, and a restart of the page), started from the empty registry, the
  click count of every record of the registry equals the length of its \<open>clicks\<close>.
\<close>

theorem C7_clickCount_is_length:
  "\<forall>r \<in> set (getAllURLs (run ops initial)). clickCount r = int (length (clicks r))"
proof -
  have "inv (run ops initial)"
    by (intro inv_run inv_initial)
  then show ?thesis
    by (auto simp: inv_def records_ok_def getAllURLs_def)
qed

text \<open>The theorem at the worked sequence: one record, two clicks, count 2.\<close>

theorem C7_clickCount_is_length_witness:
  "map (\<lambda>r. (clickCount r, int (length (clicks r)))) (getAllURLs (run example_ops initial))
     = [(2, 2)]"
proof -
  have "map clickCount (getAllURLs (run example_ops initial)) = [2]"
    by code_simp
  then show ?thesis
    using C7_clickCount_is_length [of example_ops] by (auto simp: map_eq_Cons_conv)
qed

text \<open>
  C10. After every sequence of registry operations, started from the empty registry, the
  two stores are in step: a shortcode is a key of the map of records if and only if it
  is a key of the map of click histories, and the click history under a shortcode is the
  \<open>clicks\<close> of the record under it.
\<close>

theorem C10_stores_in_sync:
  "(\<forall>k. k \<in> fst ` set (urls (run ops initial)) \<longleftrightarrow> k \<in> fst ` set (clickData (run ops initial)))
   \<and> (\<forall>k r. map_of (urls (run ops initial)) k = Some r
          \<longrightarrow> map_of (clickData (run ops initial)) k = Some (clicks r))"
proof -
  have "inv (run ops initial)"
    by (intro inv_run inv_initial)
  then have eq: "clickData (run ops initial) = history_of (urls (run ops initial))"
    by (simp add: inv_def)
  have "fst ` set (history_of us) = fst ` set us" for us
    using fst_history_of [of us] by (metis set_map)
  then show ?thesis
    unfolding eq by (simp add: map_of_history_of)
qed

text \<open>The theorem at the worked sequence, for its one shortcode.\<close>

theorem C10_stores_in_sync_witness:
  "map (\<lambda>(k, r). (k, Some (clicks r))) (urls (run example_ops initial))
     = [(''AAAAAA'', map_of (clickData (run example_ops initial)) ''AAAAAA'')]"
proof -
  have "map fst (urls (run example_ops initial)) = [''AAAAAA'']"
    by code_simp
  then obtain r where r: "urls (run example_ops initial) = [(''AAAAAA'', r)]"
    by (auto simp: map_eq_Cons_conv)
  then have "map_of (urls (run example_ops initial)) ''AAAAAA'' = Some r"
    by simp
  with C10_stores_in_sync [of example_ops]
  have "map_of (clickData (run example_ops initial)) ''AAAAAA'' = Some (clicks r)"
    by blast
  then show ?thesis
    by (simp add: r)
qed

end
